theory Spec2Isabelle
  imports Complex_Main
begin

section \<open>Data model\<close>

text \<open>
  The dispatcher of \<^verbatim>\<open>al_core/dispatching\<close>: \<^verbatim>\<open>scheduler.py\<close> builds the per-file
  schedule, \<^verbatim>\<open>dispatcher.py\<close> holds the submission-level and file-level dispatch loops
  and the finalizer. Python exceptions are values of \<open>error\<close>; a loop that does not
  return is the value \<open>NonTermination\<close>.
\<close>

datatype error = ValueError | AttributeError | RecursionError | NonTermination

type_synonym sha256 = string
type_synonym classification = string

text \<open>A Python dict with insertion order: an association list; assigning to a key that
  is present replaces the value in place, a new key goes to the end.\<close>

fun dict_set :: "('k \<times> 'v) list \<Rightarrow> 'k \<Rightarrow> 'v \<Rightarrow> ('k \<times> 'v) list" where
  "dict_set [] k v = [(k, v)]"
| "dict_set ((k', v') # d) k v = (if k' = k then (k, v) # d else (k', v') # dict_set d k v)"

record service =
  name :: string
  category :: string
  stage :: string
  accepts :: string
  rejects :: string
  timeout :: int
  submission_params :: "(string \<times> string) list"

text \<open>
  The scheduler: \<open>services\<close> is the dict \<^verbatim>\<open>self.services\<close> (name to service, as
  \<^verbatim>\<open>_get_services\<close> builds it), \<open>stages\<close> is \<^verbatim>\<open>config.core.dispatcher.stages\<close>, and
  \<open>re_match\<close> stands for \<^verbatim>\<open>re.match(pattern, file_type)\<close> of Python's library being
  a match (anchored at the start of the file type).
\<close>

record scheduler =
  services :: "(string \<times> service) list"
  stages :: "string list"
  re_match :: "string \<Rightarrow> string \<Rightarrow> bool"

record submission_params =
  selected :: "string list"
  excluded :: "string list"
  service_spec :: "string \<Rightarrow> (string \<times> string) list option"
  max_extracted :: int
  ignore_filtering :: bool
  p_classification :: classification
  quota_item :: bool
  submitter :: string
  psid :: "string option"

record submission =
  sid :: string
  files :: "sha256 list"
  params :: submission_params
  expiry_ts :: real
  s_classification :: classification
  error_count :: int
  errors :: "string list"
  file_count :: int
  results :: "string list"
  max_score :: int
  state :: string
  times_completed :: "real option"

section \<open>Scheduler (scheduler.py)\<close>

definition system_category :: string where
  "system_category = ''system''"

text \<open>\<^verbatim>\<open>Scheduler.categories\<close>: the services' names grouped by category; a category is a
  key of the dict iff some service has it.\<close>

definition categories :: "scheduler \<Rightarrow> string \<Rightarrow> string list option" where
  "categories S c =
     (let members = map (\<lambda>(k, v). name v) (filter (\<lambda>(k, v). category v = c) (services S))
      in if members = [] then None else Some members)"

text \<open>
  The loop of \<^verbatim>\<open>expand_categories\<close>. \<^verbatim>\<open>services.pop()\<close> takes the last element and
  \<^verbatim>\<open>extend\<close> appends. \<^verbatim>\<open>seen_categories.update(name)\<close> adds the characters of the name
  (one-character strings) to the set, not the name. The loop need not end, so not
  returning is the value \<open>None\<close>.
\<close>

partial_function (option) expand_loop ::
  "(string \<Rightarrow> string list option) \<Rightarrow> string list \<Rightarrow> string set \<Rightarrow> string list
   \<Rightarrow> string list option" where
  "expand_loop cats svcs seen found =
     (if svcs = [] then Some found
      else case cats (last svcs) of
             Some members \<Rightarrow>
               if last svcs \<notin> seen
               then expand_loop cats (butlast svcs @ members)
                      (seen \<union> (\<lambda>c. [c]) ` set (last svcs)) found
               else expand_loop cats (butlast svcs) seen found
           | None \<Rightarrow> expand_loop cats (butlast svcs) seen (found @ [last svcs]))"

text \<open>\<^verbatim>\<open>list(set(found_services))\<close>: the order of a Python set is not specified; the
  model takes the order of first occurrence.\<close>

definition expand_categories :: "scheduler \<Rightarrow> string list \<Rightarrow> error + string list" where
  "expand_categories S svcs =
     (case expand_loop (categories S) svcs {} [] of
        None \<Rightarrow> Inl NonTermination
      | Some found \<Rightarrow> Inr (remdups found))"

fun index_of :: "'a list \<Rightarrow> 'a \<Rightarrow> nat option" where
  "index_of [] x = None"
| "index_of (y # ys) x = (if y = x then Some 0 else map_option Suc (index_of ys x))"

text \<open>\<^verbatim>\<open>self.stages().index(stage)\<close> raises ValueError for a stage that is not configured.\<close>

definition stage_index :: "scheduler \<Rightarrow> string \<Rightarrow> error + nat" where
  "stage_index S st = (case index_of (stages S) st of None \<Rightarrow> Inl ValueError | Some i \<Rightarrow> Inr i)"

definition accepted :: "scheduler \<Rightarrow> service \<Rightarrow> string \<Rightarrow> bool" where
  "accepted S v file_type = (accepts v = [] \<or> re_match S (accepts v) file_type)"

definition rejected :: "scheduler \<Rightarrow> service \<Rightarrow> string \<Rightarrow> bool" where
  "rejected S v file_type = (rejects v \<noteq> [] \<and> re_match S (rejects v) file_type)"

text \<open>The loop \<^verbatim>\<open>for name in services\<close> of \<^verbatim>\<open>Scheduler.build_schedule\<close>, on the list of
  per-stage dicts.\<close>

fun place_services ::
  "scheduler \<Rightarrow> string \<Rightarrow> string list \<Rightarrow> (string \<times> service) list list
   \<Rightarrow> error + (string \<times> service) list list" where
  "place_services S file_type [] schedule = Inr schedule"
| "place_services S file_type (n # ns) schedule =
     (case map_of (services S) n of
        None \<Rightarrow> place_services S file_type ns schedule
      | Some v \<Rightarrow>
          if accepted S v file_type \<and> \<not> rejected S v file_type
          then (case stage_index S (stage v) of
                  Inl e \<Rightarrow> Inl e
                | Inr i \<Rightarrow> place_services S file_type ns
                            (schedule[i := dict_set (schedule ! i) n v]))
          else place_services S file_type ns schedule)"

text \<open>The value of the local \<^verbatim>\<open>selected\<close>: every service of the catalog when the
  submission selects nothing, the expansion of the selection otherwise.\<close>

definition selected_services :: "scheduler \<Rightarrow> submission \<Rightarrow> error + string list" where
  "selected_services S sub =
     (if selected (params sub) = [] then Inr (map fst (services S))
      else expand_categories S (selected (params sub)))"

definition system_services :: "scheduler \<Rightarrow> string list" where
  "system_services S =
     map fst (filter (\<lambda>(k, v). category v = system_category) (services S))"

text \<open>\<^verbatim>\<open>list((set(selected) - set(excluded)) | set(system_services))\<close>, in the order of
  first occurrence (Python leaves the order open).\<close>

definition candidates :: "string list \<Rightarrow> string list \<Rightarrow> string list \<Rightarrow> string list" where
  "candidates sel exc sys = remdups (filter (\<lambda>n. n \<notin> set exc) sel @ sys)"

definition sched_build_schedule ::
  "scheduler \<Rightarrow> submission \<Rightarrow> string \<Rightarrow> error + (string \<times> service) list list" where
  "sched_build_schedule S sub file_type =
     (case expand_categories S (excluded (params sub)) of
        Inl e \<Rightarrow> Inl e
      | Inr exc \<Rightarrow>
          (case selected_services S sub of
             Inl e \<Rightarrow> Inl e
           | Inr sel \<Rightarrow>
               place_services S file_type (candidates sel exc (system_services S))
                 (map (\<lambda>_. []) (stages S))))"

section \<open>Dispatch state\<close>

record file_info =
  magic :: string
  md5 :: string
  mime :: string
  sha1 :: string
  fi_sha256 :: sha256
  fi_size :: int
  fi_type :: string

record file_task =
  ft_sid :: string
  parent_hash :: "sha256 option"
  file_info :: file_info
  depth :: int
  max_files :: int

record submission_task =
  submission :: submission
  completed_queue :: "string option"

record service_task =
  st_sid :: string
  service_name :: string
  service_config :: "(string \<times> string) list"
  fileinfo :: file_info
  st_depth :: int
  st_max_files :: int

text \<open>The result record of the datastore, as far as the dispatcher reads it:
  \<^verbatim>\<open>result.response.extracted\<close> (the children's sha256), \<^verbatim>\<open>result.result.score\<close> and
  \<^verbatim>\<open>result.classification\<close>.\<close>

record result =
  extracted :: "sha256 list"
  r_score :: int
  r_classification :: classification

record filescore =
  fs_psid :: "string option"
  fs_expiry_ts :: real
  fs_score :: int
  fs_errors :: int
  fs_sid :: string
  fs_time :: real

text \<open>Modelled from the spec: the finish record of \<^verbatim>\<open>dispatch_hash.py\<close> (not among the
  sources), with the fields of the spec's data model (\<open>drop_flag\<close> is its \<open>drop\<close>).\<close>

record finish_record =
  bucket :: string
  key :: string
  score :: int
  drop_flag :: bool
  fr_classification :: classification

text \<open>Modelled from the spec: "a bucket=error entry is marked is_error".\<close>

definition is_error :: "finish_record \<Rightarrow> bool" where
  "is_error r = (bucket r = ''error'')"

text \<open>Modelled from the spec: the Dispatch State of one submission (\<^verbatim>\<open>DispatchHash\<close>,
  not among the sources): the schedule cache, the dispatch timestamps, the finish records
  (a dict per file, by service) and the admitted files.\<close>

record dispatch_hash =
  schedules :: "sha256 \<Rightarrow> string list list option"
  dispatched :: "sha256 \<times> string \<Rightarrow> real option"
  finished_rows :: "(sha256 \<times> (string \<times> finish_record) list) list"
  admitted :: "sha256 list"

definition empty_table :: dispatch_hash where
  "empty_table =
     \<lparr>schedules = (\<lambda>_. None), dispatched = (\<lambda>_. None), finished_rows = [], admitted = []\<rparr>"

text \<open>The two writes of the library's hash that the dispatcher uses on the schedule
  cache: \<^verbatim>\<open>add\<close> writes a key only when it is absent, \<^verbatim>\<open>set\<close> overwrites.\<close>

definition hash_add :: "('k \<Rightarrow> 'v option) \<Rightarrow> 'k \<Rightarrow> 'v \<Rightarrow> ('k \<Rightarrow> 'v option)" where
  "hash_add h k v = (case h k of None \<Rightarrow> h(k \<mapsto> v) | Some _ \<Rightarrow> h)"

definition hash_set :: "('k \<Rightarrow> 'v option) \<Rightarrow> 'k \<Rightarrow> 'v \<Rightarrow> ('k \<Rightarrow> 'v option)" where
  "hash_set h k v = h(k \<mapsto> v)"

text \<open>Modelled from the spec: \<^verbatim>\<open>finished(sha, svc)\<close> returns the finish record or absent.\<close>

definition finished :: "dispatch_hash \<Rightarrow> sha256 \<Rightarrow> string \<Rightarrow> finish_record option" where
  "finished tbl sha svc =
     (case map_of (finished_rows tbl) sha of None \<Rightarrow> None | Some row \<Rightarrow> map_of row svc)"

text \<open>Modelled from the spec: \<^verbatim>\<open>dispatch_time(sha, svc)\<close> returns the last dispatch
  timestamp or 0.\<close>

definition dispatch_time :: "dispatch_hash \<Rightarrow> sha256 \<Rightarrow> string \<Rightarrow> real" where
  "dispatch_time tbl sha svc = (case dispatched tbl (sha, svc) of None \<Rightarrow> 0 | Some t \<Rightarrow> t)"

text \<open>Modelled from the spec: \<^verbatim>\<open>dispatch(sha, svc)\<close> sets the dispatch timestamp to now.\<close>

definition dispatch :: "dispatch_hash \<Rightarrow> real \<Rightarrow> sha256 \<Rightarrow> string \<Rightarrow> dispatch_hash" where
  "dispatch tbl now sha svc = tbl\<lparr>dispatched := (dispatched tbl)((sha, svc) \<mapsto> now)\<rparr>"

text \<open>Modelled from the spec: \<^verbatim>\<open>add_file(sha, max_files)\<close> admits sha if under quota and
  returns true iff admitted or already admitted; admission succeeds only while
  \<open>|files| < max_files\<close>.\<close>

definition add_file :: "dispatch_hash \<Rightarrow> sha256 \<Rightarrow> int \<Rightarrow> bool \<times> dispatch_hash" where
  "add_file tbl sha mf =
     (if sha \<in> set (admitted tbl) then (True, tbl)
      else if int (length (admitted tbl)) < mf
           then (True, tbl\<lparr>admitted := admitted tbl @ [sha]\<rparr>)
           else (False, tbl))"

text \<open>Modelled from the spec: \<^verbatim>\<open>all_results()\<close> is the snapshot of every finish record,
  a dict per file.\<close>

definition all_results :: "dispatch_hash \<Rightarrow> (sha256 \<times> (string \<times> finish_record) list) list" where
  "all_results tbl = finished_rows tbl"

text \<open>Modelled from the spec: \<^verbatim>\<open>all_finished()\<close> is true iff every admitted (sha, svc) in
  every stage of that file's cached schedule has a finish record.\<close>

definition all_finished :: "dispatch_hash \<Rightarrow> bool" where
  "all_finished tbl =
     list_all (\<lambda>sha. case schedules tbl sha of
                        None \<Rightarrow> True
                      | Some sch \<Rightarrow> list_all (\<lambda>svc. finished tbl sha svc \<noteq> None) (concat sch))
       (admitted tbl)"

section \<open>The dispatcher's surroundings\<close>

text \<open>
  What a call reads and does not change: the scheduler, the file and result collections
  of the datastore, \<^verbatim>\<open>config.submission.max_extraction_depth\<close>, the number of nested
  calls the interpreter allows (\<^verbatim>\<open>file_depth\<close> recurses), and the \<^verbatim>\<open>max\<close> of the
  classification engine. The result collection is a finite table.
\<close>

record env =
  sched :: scheduler
  file_store :: "sha256 \<Rightarrow> file_info option"
  result_store :: "(string \<times> result) list"
  max_extraction_depth :: int
  recursion_limit :: nat
  c12n_max :: "classification \<Rightarrow> classification \<Rightarrow> classification"

text \<open>
  What a call changes: the active tasks, the dispatch state of each submission (created
  empty on first read), the file queue, the submission queue, the queue of each service,
  the submission collection, the file-score collection, the other named queues and the
  counter of completed files. Logging, the timeout watcher, the quota hash, the watcher
  list and the tag sets are written and never read back by the dispatcher; they are left
  out.
\<close>

record world =
  active_tasks :: "string \<Rightarrow> submission_task option"
  dispatch_tables :: "string \<Rightarrow> dispatch_hash"
  file_queue :: "file_task list"
  submission_queue :: "string list"
  service_queues :: "string \<Rightarrow> service_task list"
  saved_submissions :: "string \<Rightarrow> submission option"
  filescores :: "(sha256 \<times> filescore) list"
  named_queues :: "string \<Rightarrow> submission list"
  files_complete :: nat

text \<open>A \<^verbatim>\<open>for\<close> loop whose body may raise.\<close>

fun for_each :: "('a \<Rightarrow> 's \<Rightarrow> error + 's) \<Rightarrow> 'a list \<Rightarrow> 's \<Rightarrow> error + 's" where
  "for_each body [] s = Inr s"
| "for_each body (x # xs) s =
     (case body x s of Inl e \<Rightarrow> Inl e | Inr s' \<Rightarrow> for_each body xs s')"

section \<open>Dispatcher.build_schedule\<close>

text \<open>\<^verbatim>\<open>if not cached_schedule\<close> holds for a missing entry and for an empty list.\<close>

definition build_schedule ::
  "scheduler \<Rightarrow> dispatch_hash \<Rightarrow> submission \<Rightarrow> sha256 \<Rightarrow> string
   \<Rightarrow> error + (string list list \<times> dispatch_hash)" where
  "build_schedule S tbl sub file_hash file_type =
     (let cached_schedule = schedules tbl file_hash in
      if cached_schedule = None \<or> cached_schedule = Some []
      then (case sched_build_schedule S sub file_type of
              Inl e \<Rightarrow> Inl e
            | Inr obj_schedule \<Rightarrow>
                (let computed = map (map fst) obj_schedule
                 in Inr (computed,
                         tbl\<lparr>schedules := hash_add (schedules tbl) file_hash computed\<rparr>)))
      else Inr (the cached_schedule, tbl))"

section \<open>Dispatcher.finalize_submission\<close>

text \<open>The loop over \<^verbatim>\<open>all_results.values()\<close> and each row's \<^verbatim>\<open>values()\<close>: the statuses
  in that order, and the partition into the two key lists.\<close>

definition statuses :: "(sha256 \<times> (string \<times> finish_record) list) list \<Rightarrow> finish_record list" where
  "statuses rows = concat (map (\<lambda>(sha, row). map snd row) rows)"

fun sort_out :: "finish_record list \<Rightarrow> string list \<times> string list \<Rightarrow> string list \<times> string list" where
  "sort_out [] (errs, ress) = (errs, ress)"
| "sort_out (status # rest) (errs, ress) =
     (if is_error status then sort_out rest (errs @ [key status], ress)
      else if bucket status = ''result'' then sort_out rest (errs, ress @ [key status])
      else sort_out rest (errs, ress))"

definition finalize_submission ::
  "env \<Rightarrow> real \<Rightarrow> world \<Rightarrow> submission_task \<Rightarrow> classification list \<Rightarrow> int option \<Rightarrow> int
   \<Rightarrow> world" where
  "finalize_submission E now w task rcs mscore fcount =
     (let sub = submission task;
          c12n = fold (\<lambda>c acc. c12n_max E acc c) rcs (p_classification (params sub));
          dispatch_table = dispatch_tables w (sid sub);
          rows = all_results dispatch_table;
          w1 = w\<lparr>dispatch_tables := (dispatch_tables w)(sid sub := empty_table)\<rparr>;
          (errs, ress) = sort_out (statuses rows) ([], []);
          sub' = sub\<lparr>s_classification := c12n,
                     error_count := int (length errs),
                     errors := errs,
                     file_count := fcount,
                     results := ress,
                     max_score := (case mscore of None \<Rightarrow> 0 | Some m \<Rightarrow> m),
                     state := ''completed'',
                     times_completed := Some now\<rparr>;
          w2 = w1\<lparr>saved_submissions := (saved_submissions w1)(sid sub \<mapsto> sub')\<rparr>;
          w3 = (case completed_queue task of
                  None \<Rightarrow> w2
                | Some q \<Rightarrow>
                    if q = [] then w2
                    else w2\<lparr>named_queues := (named_queues w2)(q := named_queues w2 q @ [sub'])\<rparr>)
      in w3\<lparr>active_tasks := (active_tasks w3)(sid sub := None)\<rparr>)"

section \<open>Dispatcher.dispatch_file\<close>

text \<open>The locals of the stage loop: what is left of the schedule, the outstanding
  services (name to the catalog's entry, which may be missing), the score, the number of
  errors, and the dispatch state.\<close>

record file_scan =
  schedule_left :: "string list list"
  outstanding :: "(string \<times> service option) list"
  fscore :: int
  ferrors :: int
  ftable :: dispatch_hash

text \<open>The body of \<^verbatim>\<open>for service_name in stage\<close>. After \<^verbatim>\<open>schedule.clear()\<close> the test
  \<^verbatim>\<open>if schedule\<close> reads the list that was just emptied.\<close>

definition check_finished ::
  "scheduler \<Rightarrow> submission \<Rightarrow> sha256 \<Rightarrow> string list list \<Rightarrow> string \<Rightarrow> file_scan \<Rightarrow> file_scan" where
  "check_finished S sub file_hash started_stages svc fs =
     (case finished (ftable fs) file_hash svc of
        None \<Rightarrow> fs\<lparr>outstanding := dict_set (outstanding fs) svc (map_of (services S) svc)\<rparr>
      | Some fin \<Rightarrow>
          if is_error fin then fs\<lparr>ferrors := ferrors fs + 1\<rparr>
          else (let fs1 = fs\<lparr>fscore := fscore fs + score fin\<rparr>
                in if \<not> ignore_filtering (params sub) \<and> drop_flag fin
                   then (let fs2 = fs1\<lparr>schedule_left := []\<rparr>
                         in if schedule_left fs2 \<noteq> []
                            then fs2\<lparr>ftable := (ftable fs2)
                                   \<lparr>schedules := hash_set (schedules (ftable fs2)) file_hash
                                                   started_stages\<rparr>\<rparr>
                            else fs2)
                   else fs1))"

lemma check_finished_schedule_left:
  "length (schedule_left (check_finished S sub file_hash started svc fs))
     \<le> length (schedule_left fs)"
  by (simp add: check_finished_def Let_def split: option.splits)

lemma fold_check_finished_schedule_left:
  "length (schedule_left (fold (check_finished S sub file_hash started) names fs))
     \<le> length (schedule_left fs)"
proof (induction names arbitrary: fs)
  case Nil
  show ?case by simp
next
  case (Cons svc names)
  have "length (schedule_left (fold (check_finished S sub file_hash started) names
                  (check_finished S sub file_hash started svc fs)))
        \<le> length (schedule_left (check_finished S sub file_hash started svc fs))"
    by (rule Cons.IH)
  also have "\<dots> \<le> length (schedule_left fs)"
    by (rule check_finished_schedule_left)
  finally show ?case by simp
qed

text \<open>\<^verbatim>\<open>while schedule and not outstanding\<close>: pop the first stage, note it as started, go
  through its services. The result is the started stages and the locals.\<close>

function run_stages ::
  "scheduler \<Rightarrow> submission \<Rightarrow> sha256 \<Rightarrow> string list list \<Rightarrow> file_scan
   \<Rightarrow> string list list \<times> file_scan" where
  "run_stages S sub file_hash started_stages fs =
     (if schedule_left fs \<noteq> [] \<and> outstanding fs = []
      then (let stage = hd (schedule_left fs);
                fs1 = fs\<lparr>schedule_left := tl (schedule_left fs)\<rparr>;
                started = started_stages @ [stage]
            in run_stages S sub file_hash started
                 (fold (check_finished S sub file_hash started) stage fs1))
      else (started_stages, fs))"
  by pat_completeness auto
termination
proof (relation "measure (\<lambda>(S, sub, file_hash, started, fs). length (schedule_left fs))")
  show "wf (measure (\<lambda>(S, sub, file_hash, started, fs). length (schedule_left fs)))"
    by simp
next
  fix S :: scheduler and sub :: submission and file_hash :: sha256
    and started_stages :: "string list list" and fs :: file_scan
    and stg fs1 started
  assume a: "schedule_left fs \<noteq> [] \<and> outstanding fs = []"
    and "stg = hd (schedule_left fs)"
    and f: "fs1 = fs\<lparr>schedule_left := tl (schedule_left fs)\<rparr>"
    and "started = started_stages @ [stg]"
  have "length (schedule_left (fold (check_finished S sub file_hash started) stg fs1))
          \<le> length (schedule_left fs1)"
    by (rule fold_check_finished_schedule_left)
  also have "\<dots> < length (schedule_left fs)"
    using a f by (cases "schedule_left fs") simp_all
  finally show "((S, sub, file_hash, started,
                   fold (check_finished S sub file_hash started) stg fs1),
                 (S, sub, file_hash, started_stages, fs))
                \<in> measure (\<lambda>(S, sub, file_hash, started, fs). length (schedule_left fs))"
    by simp
qed

declare run_stages.simps [simp del]

text \<open>\<^verbatim>\<open>build_service_config\<close>: the defaults of the service's submission parameters,
  overwritten by the submission's values for that service.\<close>

definition build_service_config :: "service \<Rightarrow> submission \<Rightarrow> (string \<times> string) list" where
  "build_service_config v sub =
     (let defaults = fold (\<lambda>(n, d) acc. dict_set acc n d) (submission_params v) []
      in case service_spec (params sub) (name v) of
           None \<Rightarrow> defaults
         | Some spec \<Rightarrow> fold (\<lambda>(n, d) acc. dict_set acc n d) spec defaults)"

text \<open>The body of \<^verbatim>\<open>for service_name, service in outstanding.items()\<close>. Reading
  \<^verbatim>\<open>service.timeout\<close> of a service the catalog does not have raises.\<close>

definition push_service ::
  "real \<Rightarrow> submission \<Rightarrow> file_task \<Rightarrow> string \<times> service option \<Rightarrow> world \<Rightarrow> error + world" where
  "push_service now sub task item w =
     (case snd item of
        None \<Rightarrow> Inl AttributeError
      | Some v \<Rightarrow>
          (let file_hash = fi_sha256 (file_info task);
               dispatch_table = dispatch_tables w (ft_sid task);
               queued_time = now - dispatch_time dispatch_table file_hash (fst item)
           in if queued_time < of_int (timeout v) then Inr w
              else (let service_task =
                          \<lparr>st_sid = ft_sid task, service_name = fst item,
                           service_config = build_service_config v sub,
                           fileinfo = file_info task, st_depth = depth task,
                           st_max_files = max_files task\<rparr>
                    in Inr (w\<lparr>service_queues := (service_queues w)
                                 (fst item := service_queues w (fst item) @ [service_task]),
                               dispatch_tables := (dispatch_tables w)
                                 (ft_sid task := dispatch dispatch_table now file_hash (fst item))\<rparr>))))"

text \<open>The branch for a file with no outstanding service: the file score is saved, the
  counter incremented, and the submission queue gets the sid when the dispatch state says
  that everything is finished.\<close>

definition file_done :: "real \<Rightarrow> submission \<Rightarrow> file_task \<Rightarrow> int \<Rightarrow> int \<Rightarrow> world \<Rightarrow> world" where
  "file_done now sub task sc errs w =
     (let file_hash = fi_sha256 (file_info task);
          w1 = w\<lparr>filescores := dict_set (filescores w) file_hash
                    \<lparr>fs_psid = psid (params sub), fs_expiry_ts = expiry_ts sub,
                     fs_score = sc, fs_errors = errs, fs_sid = sid sub, fs_time = now\<rparr>,
                  files_complete := files_complete w + 1\<rparr>
      in if all_finished (dispatch_tables w1 (ft_sid task))
         then w1\<lparr>submission_queue := submission_queue w1 @ [sid sub]\<rparr>
         else w1)"

definition dispatch_file :: "env \<Rightarrow> real \<Rightarrow> world \<Rightarrow> file_task \<Rightarrow> error + world" where
  "dispatch_file E now w task =
     (case active_tasks w (ft_sid task) of
        None \<Rightarrow> Inr w
      | Some active_task \<Rightarrow>
          (let sub = submission active_task;
               file_hash = fi_sha256 (file_info task)
           in case build_schedule (sched E) (dispatch_tables w (ft_sid task)) sub file_hash
                     (fi_type (file_info task)) of
                Inl e \<Rightarrow> Inl e
              | Inr (schedule, tbl) \<Rightarrow>
                  (let (started_stages, fs) =
                         run_stages (sched E) sub file_hash []
                           \<lparr>schedule_left = schedule, outstanding = [], fscore = 0,
                            ferrors = 0, ftable = tbl\<rparr>;
                       w1 = w\<lparr>dispatch_tables := (dispatch_tables w)(ft_sid task := ftable fs)\<rparr>
                   in if outstanding fs \<noteq> []
                      then for_each (push_service now sub task) (outstanding fs) w1
                      else Inr (file_done now sub task (fscore fs) (ferrors fs) w1))))"

section \<open>Dispatcher.dispatch_submission\<close>

text \<open>The locals of the walk over the file tree. \<open>w_schedule\<close> is what is left of the
  schedule of the file at hand, \<open>w_table\<close> the dispatch state.\<close>

record walk_state =
  unchecked_files :: "file_task list"
  encountered_files :: "sha256 set"
  pending_files :: "(sha256 \<times> file_task) list"
  file_parents :: "sha256 \<Rightarrow> sha256 list option"
  w_max_score :: "int option"
  result_classifications :: "classification list"
  w_schedule :: "string list list"
  w_table :: dispatch_hash

text \<open>The loop over \<^verbatim>\<open>submission.files\<close> that seeds the work stack; a file without
  metadata is skipped.\<close>

fun seed_files :: "env \<Rightarrow> string \<Rightarrow> int \<Rightarrow> sha256 list \<Rightarrow> file_task list" where
  "seed_files E s mf [] = []"
| "seed_files E s mf (sha # rest) =
     (case file_store E sha of
        None \<Rightarrow> seed_files E s mf rest
      | Some file_data \<Rightarrow>
          \<lparr>ft_sid = s, parent_hash = None, file_info = file_data, depth = 0, max_files = mf\<rparr>
            # seed_files E s mf rest)"

text \<open>The body of \<^verbatim>\<open>for sub_file in result.response.extracted\<close>.\<close>

definition note_extracted ::
  "env \<Rightarrow> string \<Rightarrow> int \<Rightarrow> sha256 \<Rightarrow> sha256 \<Rightarrow> walk_state \<Rightarrow> walk_state" where
  "note_extracted E s mf sha sub_sha st =
     (let st1 = st\<lparr>file_parents := (file_parents st)
                   (sub_sha \<mapsto> (case file_parents st sub_sha of None \<Rightarrow> [] | Some ps \<Rightarrow> ps)
                                @ [sha])\<rparr>
      in if sub_sha \<in> encountered_files st1 then st1
         else (let st2 = st1\<lparr>encountered_files := insert sub_sha (encountered_files st1)\<rparr>
               in case file_store E sub_sha of
                    None \<Rightarrow> st2
                  | Some file_data \<Rightarrow>
                      st2\<lparr>unchecked_files := unchecked_files st2 @
                            [\<lparr>ft_sid = s, parent_hash = None, file_info = file_data,
                              depth = - 1, max_files = mf\<rparr>]\<rparr>))"

text \<open>The body of \<^verbatim>\<open>for service_name in stage\<close> in the walk. The clock is read as one
  value \<open>now\<close> for the whole call.\<close>

definition check_service ::
  "env \<Rightarrow> submission \<Rightarrow> real \<Rightarrow> int \<Rightarrow> file_task \<Rightarrow> string \<Rightarrow> walk_state
   \<Rightarrow> error + walk_state" where
  "check_service E sub now mf task svc st =
     (case map_of (services (sched E)) svc of
        None \<Rightarrow> Inl AttributeError
      | Some v \<Rightarrow>
          (let sha = fi_sha256 (file_info task);
               runtime = now - dispatch_time (w_table st) sha svc
           in if runtime < of_int (timeout v)
              then Inr (st\<lparr>pending_files := dict_set (pending_files st) sha task\<rparr>)
              else (case finished (w_table st) sha svc of
                      None \<Rightarrow> Inr (st\<lparr>pending_files := dict_set (pending_files st) sha task\<rparr>)
                    | Some result_row \<Rightarrow>
                        if is_error result_row then Inr st
                        else (let st1 = (if \<not> ignore_filtering (params sub) \<and> drop_flag result_row
                                         then st\<lparr>w_schedule := []\<rparr> else st)
                              in case map_of (result_store E) (key result_row) of
                                   None \<Rightarrow> Inr st1
                                 | Some res \<Rightarrow>
                                     (let st2 = fold (note_extracted E (sid sub) mf sha)
                                                  (extracted res) st1
                                      in Inr (st2\<lparr>w_max_score :=
                                                   (case w_max_score st2 of
                                                      None \<Rightarrow> Some (r_score res)
                                                    | Some m \<Rightarrow> Some (max m (r_score res))),
                                                 result_classifications :=
                                                   result_classifications st2
                                                     @ [r_classification res]\<rparr>))))))"

lemma for_each_le:
  fixes f :: "'s \<Rightarrow> nat"
  assumes run: "for_each body xs s = Inr s'"
    and step: "\<And>x s s'. body x s = Inr s' \<Longrightarrow> f s' \<le> f s"
  shows "f s' \<le> f s"
  using run
proof (induction xs arbitrary: s)
  case Nil
  then show ?case by simp
next
  case (Cons x xs)
  from Cons.prems obtain s1 where b: "body x s = Inr s1" and r: "for_each body xs s1 = Inr s'"
    by (auto split: sum.splits)
  from Cons.IH[OF r] step[OF b] show ?case by simp
qed

lemma fold_note_extracted_schedule:
  "w_schedule (fold (note_extracted E s mf sha) subs st) = w_schedule st"
  by (induction subs arbitrary: st) (simp_all add: note_extracted_def Let_def split: option.splits)

lemma check_service_schedule:
  "check_service E sub now mf task svc st = Inr st' \<Longrightarrow>
   length (w_schedule st') \<le> length (w_schedule st)"
  by (auto simp: check_service_def Let_def fold_note_extracted_schedule
      split: option.splits if_splits)

text \<open>\<^verbatim>\<open>while schedule: stage = schedule.pop(0); for service_name in stage: ...\<close>.
  The body may empty the schedule (\<^verbatim>\<open>schedule.clear()\<close>); it never extends it.\<close>

function scan_schedule ::
  "env \<Rightarrow> submission \<Rightarrow> real \<Rightarrow> int \<Rightarrow> file_task \<Rightarrow> walk_state \<Rightarrow> error + walk_state" where
  "scan_schedule E sub now mf task st =
     (if w_schedule st = [] then Inr st
      else (case for_each (check_service E sub now mf task) (hd (w_schedule st))
                   (st\<lparr>w_schedule := tl (w_schedule st)\<rparr>) of
              Inl e \<Rightarrow> Inl e
            | Inr st' \<Rightarrow> scan_schedule E sub now mf task st'))"
  by pat_completeness auto
termination
proof (relation "measure (\<lambda>(E, sub, now, mf, task, st). length (w_schedule st))")
  show "wf (measure (\<lambda>(E, sub, now, mf, task, st). length (w_schedule st)))"
    by simp
next
  fix E :: env and sub :: submission and now :: real and mf :: int and task :: file_task
    and st st' :: walk_state
  assume ne: "w_schedule st \<noteq> []"
    and r: "for_each (check_service E sub now mf task) (hd (w_schedule st))
              (st\<lparr>w_schedule := tl (w_schedule st)\<rparr>) = Inr st'"
  have "length (w_schedule st') \<le> length (w_schedule (st\<lparr>w_schedule := tl (w_schedule st)\<rparr>))"
    by (rule for_each_le[where f = "\<lambda>s. length (w_schedule s)", OF r])
       (rule check_service_schedule)
  also have "\<dots> < length (w_schedule st)"
    using ne by (cases "w_schedule st") simp_all
  finally show "((E, sub, now, mf, task, st'), (E, sub, now, mf, task, st))
      \<in> measure (\<lambda>(E, sub, now, mf, task, st). length (w_schedule st))"
    by simp
qed

declare scan_schedule.simps [simp del]

text \<open>Every sha256 that some result of the datastore lists as extracted: the walk
  meets no other file besides the roots.\<close>

definition extracted_universe :: "env \<Rightarrow> sha256 set" where
  "extracted_universe E = (\<Union>(k, r) \<in> set (result_store E). set (extracted r))"

definition walk_measure :: "env \<Rightarrow> walk_state \<Rightarrow> nat" where
  "walk_measure E st =
     card (extracted_universe E - encountered_files st) + length (unchecked_files st)"

lemma finite_extracted_universe: "finite (extracted_universe E)"
  by (auto simp: extracted_universe_def)

lemma note_extracted_measure:
  assumes "sub_sha \<in> extracted_universe E"
  shows "walk_measure E (note_extracted E s mf sha sub_sha st) \<le> walk_measure E st"
proof (cases "sub_sha \<in> encountered_files st")
  case True
  then show ?thesis by (simp add: note_extracted_def walk_measure_def)
next
  case False
  have fin: "finite (extracted_universe E - encountered_files st)"
    using finite_extracted_universe by simp
  have mem: "sub_sha \<in> extracted_universe E - encountered_files st"
    using assms False by simp
  have eq: "extracted_universe E - insert sub_sha (encountered_files st)
        = (extracted_universe E - encountered_files st) - {sub_sha}" by auto
  have pos: "0 < card (extracted_universe E - encountered_files st)"
    using fin mem by (auto simp: card_gt_0_iff)
  have "card (extracted_universe E - encountered_files st - {sub_sha})
        = card (extracted_universe E - encountered_files st) - 1"
    using mem by simp
  with pos have "card (extracted_universe E - insert sub_sha (encountered_files st)) + 1
        = card (extracted_universe E - encountered_files st)"
    unfolding eq by simp
  then show ?thesis
    using False by (simp add: note_extracted_def walk_measure_def Let_def split: option.splits)
qed

lemma fold_note_extracted_measure:
  "set subs \<subseteq> extracted_universe E \<Longrightarrow>
   walk_measure E (fold (note_extracted E s mf sha) subs st) \<le> walk_measure E st"
proof (induction subs arbitrary: st)
  case Nil
  show ?case by simp
next
  case (Cons x subs)
  have "walk_measure E (fold (note_extracted E s mf sha) subs (note_extracted E s mf sha x st))
        \<le> walk_measure E (note_extracted E s mf sha x st)"
    using Cons by simp
  also have "\<dots> \<le> walk_measure E st"
    using Cons.prems by (simp add: note_extracted_measure)
  finally show ?case by simp
qed

lemma result_store_universe:
  "map_of (result_store E) k = Some r \<Longrightarrow> set (extracted r) \<subseteq> extracted_universe E"
  by (auto simp: extracted_universe_def dest!: map_of_SomeD)

lemma walk_measure_upd:
  "walk_measure E (st\<lparr>pending_files := a\<rparr>) = walk_measure E st"
  "walk_measure E (st\<lparr>w_schedule := b\<rparr>) = walk_measure E st"
  "walk_measure E (st\<lparr>w_max_score := c\<rparr>) = walk_measure E st"
  "walk_measure E (st\<lparr>result_classifications := d\<rparr>) = walk_measure E st"
  "walk_measure E (st\<lparr>w_table := e\<rparr>) = walk_measure E st"
  "walk_measure E (st\<lparr>file_parents := f\<rparr>) = walk_measure E st"
  by (simp_all add: walk_measure_def)

lemma check_service_measure:
  assumes "check_service E sub now mf task svc st = Inr st'"
  shows "walk_measure E st' \<le> walk_measure E st"
proof -
  have k: "\<And>r st1 sha. map_of (result_store E) (key r) = Some res \<Longrightarrow>
      walk_measure E st1 = walk_measure E st \<Longrightarrow>
      walk_measure E (fold (note_extracted E (sid sub) mf sha) (extracted res) st1)
        \<le> walk_measure E st" for res
    using fold_note_extracted_measure[OF result_store_universe] by metis
  show ?thesis
    using assms
    by (auto simp: check_service_def Let_def walk_measure_upd k
        split: option.splits if_splits)
qed

text \<open>
  \<^verbatim>\<open>while unchecked_files: file_task = unchecked_files.pop(); ...\<close>. The stack's top is
  the end of the list. Each round takes one file from the stack and puts back only files
  that were not encountered before, all from the finite result table, so the loop ends.
\<close>

definition visit_file ::
  "env \<Rightarrow> submission \<Rightarrow> real \<Rightarrow> int \<Rightarrow> file_task \<Rightarrow> walk_state \<Rightarrow> error + walk_state" where
  "visit_file E sub now mf task st =
     (case build_schedule (sched E) (w_table st) sub (fi_sha256 (file_info task))
             (fi_type (file_info task)) of
        Inl e \<Rightarrow> Inl e
      | Inr (sch, tbl) \<Rightarrow> scan_schedule E sub now mf task (st\<lparr>w_schedule := sch, w_table := tbl\<rparr>))"

lemma scan_schedule_measure:
  "scan_schedule E sub now mf task st = Inr st' \<Longrightarrow> walk_measure E st' \<le> walk_measure E st"
proof (induction E sub now mf task st rule: scan_schedule.induct)
  case (1 E sub now mf task st)
  show ?case
  proof (cases "w_schedule st = []")
    case True
    with "1.prems" show ?thesis by (simp add: scan_schedule.simps[of E sub now mf task st])
  next
    case False
    with "1.prems" obtain st1 where
      b: "for_each (check_service E sub now mf task) (hd (w_schedule st))
            (st\<lparr>w_schedule := tl (w_schedule st)\<rparr>) = Inr st1"
      and r: "scan_schedule E sub now mf task st1 = Inr st'"
      by (auto simp: scan_schedule.simps[of E sub now mf task st] split: sum.splits)
    have "walk_measure E st' \<le> walk_measure E st1"
      using "1.IH"[OF False b r] .
    also have "\<dots> \<le> walk_measure E (st\<lparr>w_schedule := tl (w_schedule st)\<rparr>)"
      by (rule for_each_le[where f = "walk_measure E", OF b]) (rule check_service_measure)
    finally show ?thesis by (simp add: walk_measure_upd)
  qed
qed

lemma visit_file_measure:
  "visit_file E sub now mf task st = Inr st' \<Longrightarrow> walk_measure E st' \<le> walk_measure E st"
proof -
  assume v: "visit_file E sub now mf task st = Inr st'"
  then obtain sch tbl where
    r: "scan_schedule E sub now mf task (st\<lparr>w_schedule := sch, w_table := tbl\<rparr>) = Inr st'"
    by (auto simp: visit_file_def split: sum.splits prod.splits)
  from scan_schedule_measure[OF r] show ?thesis
    by (simp add: walk_measure_upd)
qed

function walk :: "env \<Rightarrow> submission \<Rightarrow> real \<Rightarrow> int \<Rightarrow> walk_state \<Rightarrow> error + walk_state" where
  "walk E sub now mf st =
     (if unchecked_files st = [] then Inr st
      else (case visit_file E sub now mf (last (unchecked_files st))
                   (st\<lparr>unchecked_files := butlast (unchecked_files st)\<rparr>) of
              Inl e \<Rightarrow> Inl e
            | Inr st' \<Rightarrow> walk E sub now mf st'))"
  by pat_completeness auto
termination
proof (relation "measure (\<lambda>(E, sub, now, mf, st). walk_measure E st)")
  show "wf (measure (\<lambda>(E, sub, now, mf, st). walk_measure E st))"
    by simp
next
  fix E :: env and sub :: submission and now :: real and mf :: int and st st' :: walk_state
  assume ne: "unchecked_files st \<noteq> []"
    and r: "visit_file E sub now mf (last (unchecked_files st))
              (st\<lparr>unchecked_files := butlast (unchecked_files st)\<rparr>) = Inr st'"
  have "walk_measure E st' \<le> walk_measure E (st\<lparr>unchecked_files := butlast (unchecked_files st)\<rparr>)"
    using r by (rule visit_file_measure)
  also have "\<dots> < walk_measure E st"
    using ne by (simp add: walk_measure_def)
  finally show "((E, sub, now, mf, st'), (E, sub, now, mf, st))
      \<in> measure (\<lambda>(E, sub, now, mf, st). walk_measure E st)"
    by simp
qed

declare walk.simps [simp del]

text \<open>\<^verbatim>\<open>min(...)\<close> over the parents' depths, evaluated in order; of no value at all it
  raises ValueError.\<close>

fun min_of :: "(error + int) list \<Rightarrow> error + int" where
  "min_of [] = Inl ValueError"
| "min_of [x] = x"
| "min_of (x # y # ys) =
     (case x of
        Inl e \<Rightarrow> Inl e
      | Inr a \<Rightarrow> (case min_of (y # ys) of Inl e \<Rightarrow> Inl e | Inr b \<Rightarrow> Inr (min a b)))"

text \<open>The local function \<^verbatim>\<open>file_depth\<close>. Its recursion follows the parent edges and is
  not memoised; the first argument is the number of nested calls still allowed, and the
  interpreter raises RecursionError beyond it (a cycle of parent edges always does).\<close>

fun file_depth :: "nat \<Rightarrow> (sha256 \<Rightarrow> sha256 list option) \<Rightarrow> sha256 \<Rightarrow> error + int" where
  "file_depth 0 parents sha = Inl RecursionError"
| "file_depth (Suc fuel) parents sha =
     (case parents sha of
        None \<Rightarrow> Inr 0
      | Some ps \<Rightarrow>
          (case min_of (map (file_depth fuel parents) ps) of
             Inl e \<Rightarrow> Inl e
           | Inr d \<Rightarrow> Inr (d + 1)))"

text \<open>\<^verbatim>\<open>for file_task in pending_files.values(): file_task.depth = file_depth(...)\<close>.\<close>

fun apply_depths ::
  "nat \<Rightarrow> (sha256 \<Rightarrow> sha256 list option) \<Rightarrow> (sha256 \<times> file_task) list
   \<Rightarrow> error + (sha256 \<times> file_task) list" where
  "apply_depths fuel parents [] = Inr []"
| "apply_depths fuel parents ((sha, task) # rest) =
     (case file_depth fuel parents (fi_sha256 (file_info task)) of
        Inl e \<Rightarrow> Inl e
      | Inr d \<Rightarrow>
          (case apply_depths fuel parents rest of
             Inl e \<Rightarrow> Inl e
           | Inr rest' \<Rightarrow> Inr ((sha, task\<lparr>depth := d\<rparr>) # rest')))"

text \<open>The comprehension that keeps the pending files \<^verbatim>\<open>add_file\<close> admits, in order.\<close>

fun admit_files ::
  "int \<Rightarrow> (sha256 \<times> file_task) list \<Rightarrow> dispatch_hash
   \<Rightarrow> (sha256 \<times> file_task) list \<times> dispatch_hash" where
  "admit_files mf [] tbl = ([], tbl)"
| "admit_files mf ((sha, task) # rest) tbl =
     (let (ok, tbl1) = add_file tbl sha mf;
          (kept, tbl2) = admit_files mf rest tbl1
      in (if ok then (sha, task) # kept else kept, tbl2))"

text \<open>An exception ends the call; the model does not keep the state at that point.\<close>

definition dispatch_submission :: "env \<Rightarrow> real \<Rightarrow> world \<Rightarrow> submission_task \<Rightarrow> error + world" where
  "dispatch_submission E now w task =
     (let sub = submission task;
          w1 = w\<lparr>active_tasks := hash_add (active_tasks w) (sid sub) task\<rparr>;
          mf = int (length (files sub)) + max_extracted (params sub);
          st0 = \<lparr>unchecked_files = seed_files E (sid sub) mf (files sub),
                 encountered_files = set (files sub),
                 pending_files = [],
                 file_parents = (\<lambda>_. None),
                 w_max_score = None,
                 result_classifications = [],
                 w_schedule = [],
                 w_table = dispatch_tables w1 (sid sub)\<rparr>
      in case walk E sub now mf st0 of
           Inl e \<Rightarrow> Inl e
         | Inr st \<Rightarrow>
             (case apply_depths (recursion_limit E) (file_parents st) (pending_files st) of
                Inl e \<Rightarrow> Inl e
              | Inr with_depth \<Rightarrow>
                  (let in_depth = filter (\<lambda>(sha, ft). depth ft < max_extraction_depth E)
                                    with_depth;
                       (pending, tbl) = admit_files mf in_depth (w_table st);
                       w2 = w1\<lparr>dispatch_tables := (dispatch_tables w1)(sid sub := tbl)\<rparr>
                   in if pending \<noteq> []
                      then Inr (w2\<lparr>file_queue := file_queue w2 @ map snd pending\<rparr>)
                      else Inr (finalize_submission E now w2 task
                                  (result_classifications st) (w_max_score st)
                                  (int (card (encountered_files st)))))))"

section \<open>Scenario data\<close>

text \<open>Concrete submissions, services and states on which the properties below are
  evaluated. The scenario's \<open>re_match\<close> is the match of a pattern without
  metacharacters: the file type starts with the pattern.\<close>

definition scenario_params :: submission_params where
  "scenario_params =
     \<lparr>selected = [], excluded = [], service_spec = (\<lambda>_. None), max_extracted = 2,
      ignore_filtering = False, p_classification = ''U'', quota_item = False,
      submitter = ''user'', psid = None\<rparr>"

definition scenario_submission :: submission where
  "scenario_submission =
     \<lparr>sid = ''S1'', files = [''A''], params = scenario_params, expiry_ts = 0,
      s_classification = ''U'', error_count = 0, errors = [], file_count = 0, results = [],
      max_score = 0, state = ''submitted'', times_completed = None\<rparr>"

definition scenario_task :: submission_task where
  "scenario_task = \<lparr>submission = scenario_submission, completed_queue = None\<rparr>"

definition finish_row :: "string \<Rightarrow> string \<Rightarrow> int \<Rightarrow> bool \<Rightarrow> finish_record" where
  "finish_row b k sc d = \<lparr>bucket = b, key = k, score = sc, drop_flag = d, fr_classification = ''U''\<rparr>"

definition empty_world :: world where
  "empty_world =
     \<lparr>active_tasks = (\<lambda>_. None), dispatch_tables = (\<lambda>_. empty_table), file_queue = [],
      submission_queue = [], service_queues = (\<lambda>_. []), saved_submissions = (\<lambda>_. None),
      filescores = [], named_queues = (\<lambda>_. []), files_complete = 0\<rparr>"

definition scenario_service :: "string \<Rightarrow> string \<Rightarrow> int \<Rightarrow> service" where
  "scenario_service n stg t =
     \<lparr>name = n, category = ''static'', stage = stg, accepts = [], rejects = [],
      timeout = t, submission_params = []\<rparr>"

definition scenario_scheduler :: scheduler where
  "scenario_scheduler =
     \<lparr>services = [(''sv1'', scenario_service ''sv1'' ''s1'' 60),
                  (''sv2'', scenario_service ''sv2'' ''s2'' 30)],
      stages = [''s1'', ''s2''],
      re_match = (\<lambda>p t. take (length p) t = p)\<rparr>"

definition scenario_file :: "sha256 \<Rightarrow> file_info" where
  "scenario_file sha =
     \<lparr>magic = ''data'', md5 = [], mime = ''text/plain'', sha1 = [], fi_sha256 = sha,
      fi_size = 1, fi_type = ''text''\<rparr>"

definition scenario_file_task :: "sha256 \<Rightarrow> int \<Rightarrow> file_task" where
  "scenario_file_task sha d =
     \<lparr>ft_sid = ''S1'', parent_hash = None, file_info = scenario_file sha, depth = d,
      max_files = 3\<rparr>"

text \<open>File A with the cached schedule sv1, then sv2; sv1 has finished with a result of score
  10 whose drop flag is the argument.\<close>

definition staged_table :: "bool \<Rightarrow> dispatch_hash" where
  "staged_table d =
     empty_table\<lparr>schedules := (\<lambda>_. None)(''A'' \<mapsto> [[''sv1''], [''sv2'']]),
                 finished_rows := [(''A'', [(''sv1'', finish_row ''result'' ''r1'' 10 d)])]\<rparr>"

definition scenario_env :: env where
  "scenario_env =
     \<lparr>sched = scenario_scheduler, file_store = (\<lambda>_. None), result_store = [],
      max_extraction_depth = 2, recursion_limit = 1000, c12n_max = (\<lambda>a b. if a = ''U'' then b else a)\<rparr>"

definition staged_world :: "bool \<Rightarrow> world" where
  "staged_world d =
     empty_world\<lparr>active_tasks := (\<lambda>_. None)(''S1'' \<mapsto> scenario_task),
                 dispatch_tables := (\<lambda>_. empty_table)(''S1'' := staged_table d)\<rparr>"


section \<open>Properties of the finalizer\<close>

lemma sort_out_filter:
  "sort_out rows (errs, ress) =
     (errs @ map key (filter is_error rows),
      ress @ map key (filter (\<lambda>r. \<not> is_error r \<and> bucket r = ''result'') rows))"
  by (induction rows arbitrary: errs ress) simp_all



lemma seed_files_missing:
  "\<forall>sha \<in> set shas. file_store E sha = None \<Longrightarrow> seed_files E s mf shas = []"
  by (induction shas) simp_all

lemma walk_empty: "unchecked_files st = [] \<Longrightarrow> walk E sub now mf st = Inr st"
  by (simp add: walk.simps)

lemma finalize_submission_saved:
  "saved_submissions (finalize_submission E now w task rcs mscore fcount) =
     (saved_submissions w)(sid (submission task) \<mapsto>
        (submission task)
          \<lparr>s_classification := fold (\<lambda>c acc. c12n_max E acc c) rcs
                                  (p_classification (params (submission task))),
           error_count := int (length (map key (filter is_error
             (statuses (all_results (dispatch_tables w (sid (submission task)))))))),
           errors := map key (filter is_error
             (statuses (all_results (dispatch_tables w (sid (submission task)))))),
           file_count := fcount,
           results := map key (filter (\<lambda>r. \<not> is_error r \<and> bucket r = ''result'')
             (statuses (all_results (dispatch_tables w (sid (submission task)))))),
           max_score := (case mscore of None \<Rightarrow> 0 | Some m \<Rightarrow> m),
           state := ''completed'',
           times_completed := Some now\<rparr>)"
  by (simp add: finalize_submission_def Let_def sort_out_filter split: option.splits)

lemma finalize_submission_queues:
  "file_queue (finalize_submission E now w task rcs mscore fcount) = file_queue w"
  "service_queues (finalize_submission E now w task rcs mscore fcount) = service_queues w"
  "submission_queue (finalize_submission E now w task rcs mscore fcount) = submission_queue w"
  "active_tasks (finalize_submission E now w task rcs mscore fcount) =
     (active_tasks w)(sid (submission task) := None)"
  "dispatch_tables (finalize_submission E now w task rcs mscore fcount) =
     (dispatch_tables w)(sid (submission task) := empty_table)"
  by (simp_all add: finalize_submission_def Let_def split: option.splits prod.splits)

section \<open>Properties of the submission dispatcher\<close>

text \<open>
  C10. When the metadata lookup fails for every root file and the dispatch state holds no
  finish record, one call of \<^verbatim>\<open>dispatch_submission\<close> finalizes the submission: it is
  saved as completed with \<open>max_score\<close> 0, no results, no errors, and \<open>file_count\<close> the
  number of root files (the roots are distinct sha256, as the submission's file set has
  them); nothing is put on the file queue or on a service queue.
\<close>

theorem missing_roots_finalize:
  assumes missing: "\<forall>sha \<in> set (files (submission task)). file_store E sha = None"
    and roots: "distinct (files (submission task))"
    and fresh: "finished_rows (dispatch_tables w (sid (submission task))) = []"
  shows "\<exists>w' sub'. dispatch_submission E now w task = Inr w' \<and>
      saved_submissions w' (sid (submission task)) = Some sub' \<and>
      state sub' = ''completed'' \<and> max_score sub' = 0 \<and>
      results sub' = [] \<and> errors sub' = [] \<and>
      file_count sub' = int (length (files (submission task))) \<and>
      file_queue w' = file_queue w \<and>
      (\<forall>svc. service_queues w' svc = service_queues w svc)"
proof -
  have seed: "\<And>mf. seed_files E (sid (submission task)) mf (files (submission task)) = []"
    using missing by (rule seed_files_missing)
  have card: "card (set (files (submission task))) = length (files (submission task))"
    using roots by (rule distinct_card)
  show ?thesis
    by (simp add: dispatch_submission_def Let_def seed walk_empty card fresh
        finalize_submission_saved finalize_submission_queues all_results_def statuses_def)
qed

theorem missing_roots_finalize_witness:
  "\<exists>w' sub'. dispatch_submission scenario_env 5 empty_world scenario_task = Inr w' \<and>
      saved_submissions w' ''S1'' = Some sub' \<and>
      state sub' = ''completed'' \<and> max_score sub' = 0 \<and>
      results sub' = [] \<and> errors sub' = [] \<and> file_count sub' = 1"
proof -
  have a: "\<forall>sha \<in> set (files (submission scenario_task)). file_store scenario_env sha = None"
    by (simp add: scenario_env_def)
  have b: "distinct (files (submission scenario_task))"
    by (simp add: scenario_task_def scenario_submission_def)
  have c: "finished_rows (dispatch_tables empty_world (sid (submission scenario_task))) = []"
    by (simp add: empty_world_def empty_table_def)
  show ?thesis
    using missing_roots_finalize[OF a b c, of 5]
    by (auto simp: scenario_task_def scenario_submission_def)
qed

section \<open>Properties of the file dispatcher\<close>

lemma check_finished_ftable:
  "ftable (check_finished S sub fh started svc fs) = ftable fs"
  by (simp add: check_finished_def Let_def split: option.splits)

lemma check_finished_left:
  "schedule_left (check_finished S sub fh started svc fs) = schedule_left fs \<or>
   schedule_left (check_finished S sub fh started svc fs) = []"
  by (simp add: check_finished_def Let_def split: option.splits)

lemma dict_set_map_fst:
  "map fst (dict_set d k v) = (if k \<in> set (map fst d) then map fst d else map fst d @ [k])"
  by (induction d) (force simp: image_iff)+

lemma dict_set_keys: "fst ` set (dict_set d k v) = insert k (fst ` set d)"
proof -
  have "set (map fst (dict_set d k v)) = insert k (set (map fst d))"
    by (simp only: dict_set_map_fst) auto
  then show ?thesis by simp
qed

lemma dict_set_distinct: "distinct (map fst d) \<Longrightarrow> distinct (map fst (dict_set d k v))"
  by (simp add: dict_set_map_fst)

lemma check_finished_outstanding:
  "fst ` set (outstanding (check_finished S sub fh started svc fs)) =
     fst ` set (outstanding fs) \<union> (if finished (ftable fs) fh svc = None then {svc} else {})"
  by (simp add: check_finished_def Let_def dict_set_keys split: option.splits)

lemma check_finished_distinct:
  "distinct (map fst (outstanding fs)) \<Longrightarrow>
   distinct (map fst (outstanding (check_finished S sub fh started svc fs)))"
  by (simp add: check_finished_def Let_def dict_set_distinct split: option.splits)

lemma dict_set_catalog:
  "(\<And>n v. (n, v) \<in> set d \<Longrightarrow> v = f n) \<Longrightarrow> (n, v) \<in> set (dict_set d k (f k)) \<Longrightarrow> v = f n"
  by (induction d) (auto split: if_splits)

definition from_catalog :: "scheduler \<Rightarrow> (string \<times> service option) list \<Rightarrow> bool" where
  "from_catalog S items \<longleftrightarrow> (\<forall>n v. (n, v) \<in> set items \<longrightarrow> v = map_of (services S) n)"

lemma check_finished_catalog:
  assumes "from_catalog S (outstanding fs)"
  shows "from_catalog S (outstanding (check_finished S sub fh started svc fs))"
proof (cases "finished (ftable fs) fh svc")
  case None
  then have "outstanding (check_finished S sub fh started svc fs)
      = dict_set (outstanding fs) svc (map_of (services S) svc)"
    by (simp add: check_finished_def)
  with assms show ?thesis
    unfolding from_catalog_def using dict_set_catalog[of "outstanding fs" "map_of (services S)"]
    by metis
next
  case (Some fin)
  then have "outstanding (check_finished S sub fh started svc fs) = outstanding fs"
    by (simp add: check_finished_def Let_def)
  with assms show ?thesis by simp
qed

lemma fold_check_finished_ftable:
  "ftable (fold (check_finished S sub fh started) names fs) = ftable fs"
  by (induction names arbitrary: fs) (simp_all add: check_finished_ftable)

lemma fold_check_finished_left:
  "schedule_left (fold (check_finished S sub fh started) names fs) = schedule_left fs \<or>
   schedule_left (fold (check_finished S sub fh started) names fs) = []"
proof (induction names arbitrary: fs)
  case Nil
  show ?case by simp
next
  case (Cons svc names)
  from Cons.IH[of "check_finished S sub fh started svc fs"]
    check_finished_left[of S sub fh started svc fs]
  show ?case by auto
qed

lemma fold_check_finished_outstanding:
  "fst ` set (outstanding (fold (check_finished S sub fh started) names fs)) =
     fst ` set (outstanding fs) \<union> {t \<in> set names. finished (ftable fs) fh t = None}"
proof (induction names arbitrary: fs)
  case Nil
  show ?case by simp
next
  case (Cons svc names)
  have "fst ` set (outstanding (fold (check_finished S sub fh started) (svc # names) fs)) =
        fst ` set (outstanding (check_finished S sub fh started svc fs)) \<union>
          {t \<in> set names. finished (ftable fs) fh t = None}"
    using Cons.IH[of "check_finished S sub fh started svc fs"]
    by (simp add: check_finished_ftable)
  also have "\<dots> = fst ` set (outstanding fs) \<union>
          {t \<in> set (svc # names). finished (ftable fs) fh t = None}"
    unfolding check_finished_outstanding by auto
  finally show ?case .
qed

lemma fold_check_finished_distinct:
  "distinct (map fst (outstanding fs)) \<Longrightarrow>
   distinct (map fst (outstanding (fold (check_finished S sub fh started) names fs)))"
  by (induction names arbitrary: fs) (simp_all add: check_finished_distinct)

lemma fold_check_finished_catalog:
  "from_catalog S (outstanding fs) \<Longrightarrow>
   from_catalog S (outstanding (fold (check_finished S sub fh started) names fs))"
  by (induction names arbitrary: fs) (simp_all add: check_finished_catalog)

text \<open>What holds of the started stages and the locals at every test of the loop
  condition, for the schedule \<open>sch\<close> and the dispatch state \<open>tbl\<close> at the start.\<close>

definition stage_inv ::
  "scheduler \<Rightarrow> string list list \<Rightarrow> dispatch_hash \<Rightarrow> sha256 \<Rightarrow> string list list \<Rightarrow> file_scan \<Rightarrow> bool" where
  "stage_inv S sch tbl fh started fs \<longleftrightarrow>
     started = take (length started) sch \<and>
     (schedule_left fs = drop (length started) sch \<or> schedule_left fs = []) \<and>
     ftable fs = tbl \<and>
     (\<forall>stg \<in> set (butlast started). \<forall>t \<in> set stg. finished tbl fh t \<noteq> None) \<and>
     fst ` set (outstanding fs) =
       (if started = [] then {} else {t \<in> set (last started). finished tbl fh t = None}) \<and>
     distinct (map fst (outstanding fs)) \<and>
     from_catalog S (outstanding fs)"

lemma stage_inv_step:
  assumes inv: "stage_inv S sch tbl fh started fs"
    and ne: "schedule_left fs \<noteq> []" and no: "outstanding fs = []"
  shows "stage_inv S sch tbl fh (started @ [hd (schedule_left fs)])
           (fold (check_finished S sub fh (started @ [hd (schedule_left fs)]))
              (hd (schedule_left fs)) (fs\<lparr>schedule_left := tl (schedule_left fs)\<rparr>))"
proof -
  let ?n = "length started"
  let ?stg = "hd (schedule_left fs)"
  let ?fs1 = "fs\<lparr>schedule_left := tl (schedule_left fs)\<rparr>"
  let ?fs2 = "fold (check_finished S sub fh (started @ [?stg])) ?stg ?fs1"
  from inv ne have left: "schedule_left fs = drop ?n sch"
    by (auto simp: stage_inv_def)
  with ne have n: "?n < length sch" by auto
  from left n have stg: "?stg = sch ! ?n"
    by (simp add: hd_drop_conv_nth)
  from inv have pre: "started = take ?n sch" by (simp add: stage_inv_def)
  have pre': "started @ [?stg] = take (Suc ?n) sch"
    using pre n stg by (simp add: take_Suc_conv_app_nth)
  have tl: "tl (schedule_left fs) = drop (Suc ?n) sch"
    using left by (simp add: drop_Suc tl_drop)
  from inv have tb: "ftable fs = tbl" by (simp add: stage_inv_def)
  have fin_all: "\<forall>stg \<in> set started. \<forall>t \<in> set stg. finished tbl fh t \<noteq> None"
  proof (cases "started = []")
    case True
    then show ?thesis by simp
  next
    case False
    from inv no False have lastd: "\<forall>t \<in> set (last started). finished tbl fh t \<noteq> None"
      by (auto simp: stage_inv_def)
    from inv have "\<forall>stg \<in> set (butlast started). \<forall>t \<in> set stg. finished tbl fh t \<noteq> None"
      by (simp add: stage_inv_def)
    moreover
    have "set started = set (butlast started) \<union> {last started}"
      using False by (metis append_butlast_last_id set_append list.set(1) list.set(2))
    ultimately show ?thesis using lastd by auto
  qed
  have f1: "ftable ?fs2 = tbl"
    using tb by (simp add: fold_check_finished_ftable)
  have f2: "schedule_left ?fs2 = drop (Suc ?n) sch \<or> schedule_left ?fs2 = []"
    using fold_check_finished_left[of S sub fh "started @ [?stg]" ?stg ?fs1] tl by simp
  have f3: "fst ` set (outstanding ?fs2) = {t \<in> set ?stg. finished tbl fh t = None}"
    using no tb by (simp add: fold_check_finished_outstanding)
  have f4: "distinct (map fst (outstanding ?fs2))"
    using no by (simp add: fold_check_finished_distinct)
  have "from_catalog S (outstanding ?fs1)"
    using no by (simp add: from_catalog_def)
  then have f5: "from_catalog S (outstanding ?fs2)"
    by (rule fold_check_finished_catalog)
  show ?thesis
    unfolding stage_inv_def
  proof (intro conjI)
    have "length (started @ [?stg]) = Suc ?n" by simp
    then show "started @ [?stg] = take (length (started @ [?stg])) sch"
      using pre' by (simp only:)
    show "schedule_left ?fs2 = drop (length (started @ [?stg])) sch \<or> schedule_left ?fs2 = []"
      using f2 by simp
    show "ftable ?fs2 = tbl" by (rule f1)
    show "\<forall>stg \<in> set (butlast (started @ [?stg])). \<forall>t \<in> set stg. finished tbl fh t \<noteq> None"
      using fin_all by simp
    show "fst ` set (outstanding ?fs2) =
       (if started @ [?stg] = [] then {}
        else {t \<in> set (last (started @ [?stg])). finished tbl fh t = None})"
      using f3 by simp
    show "distinct (map fst (outstanding ?fs2))" by (rule f4)
    show "from_catalog S (outstanding ?fs2)" by (rule f5)
  qed
qed

lemma run_stages_inv:
  "stage_inv S sch tbl fh started fs \<Longrightarrow>
   run_stages S sub fh started fs = (started', fs') \<Longrightarrow>
   stage_inv S sch tbl fh started' fs' \<and> (schedule_left fs' = [] \<or> outstanding fs' \<noteq> [])"
proof (induction S sub fh started fs rule: run_stages.induct)
  case (1 S sub fh started fs)
  show ?case
  proof (cases "schedule_left fs \<noteq> [] \<and> outstanding fs = []")
    case False
    with "1.prems" show ?thesis
      by (auto simp: run_stages.simps[of S sub fh started fs])
  next
    case True
    let ?stg = "hd (schedule_left fs)"
    let ?fs1 = "fs\<lparr>schedule_left := tl (schedule_left fs)\<rparr>"
    let ?st1 = "started @ [?stg]"
    have inv: "stage_inv S sch tbl fh ?st1 (fold (check_finished S sub fh ?st1) ?stg ?fs1)"
      using "1.prems"(1) True by (simp add: stage_inv_step)
    have run: "run_stages S sub fh ?st1 (fold (check_finished S sub fh ?st1) ?stg ?fs1)
                 = (started', fs')"
      using "1.prems"(2) True by (simp add: run_stages.simps[of S sub fh started fs] Let_def)
    show ?thesis
      using "1.IH"[OF True refl refl refl inv run] .
  qed
qed

lemma stage_inv_start:
  "stage_inv S sch tbl fh []
     \<lparr>schedule_left = sch, outstanding = [], fscore = 0, ferrors = 0, ftable = tbl\<rparr>"
  by (simp add: stage_inv_def from_catalog_def)

lemma build_schedule_table:
  assumes "build_schedule S tbl sub fh ft = Inr (sch, tbl')"
  shows "dispatched tbl' = dispatched tbl" "finished_rows tbl' = finished_rows tbl"
    "admitted tbl' = admitted tbl"
    "\<And>h c. schedules tbl h = Some c \<Longrightarrow> schedules tbl' h = Some c"
  using assms
  by (auto simp: build_schedule_def Let_def hash_add_def split: sum.splits if_splits option.splits)

lemma build_schedule_finished:
  "build_schedule S tbl sub fh ft = Inr (sch, tbl') \<Longrightarrow> finished tbl' = finished tbl"
  by (simp add: finished_def fun_eq_iff build_schedule_table)

lemma build_schedule_dispatch_time:
  "build_schedule S tbl sub fh ft = Inr (sch, tbl') \<Longrightarrow> dispatch_time tbl' = dispatch_time tbl"
  by (simp add: dispatch_time_def fun_eq_iff build_schedule_table)

text \<open>The message that \<^verbatim>\<open>dispatch_file\<close> builds for a service.\<close>

definition make_service_task :: "submission \<Rightarrow> file_task \<Rightarrow> string \<Rightarrow> service \<Rightarrow> service_task" where
  "make_service_task sub task svc v =
     \<lparr>st_sid = ft_sid task, service_name = svc, service_config = build_service_config v sub,
      fileinfo = file_info task, st_depth = depth task, st_max_files = max_files task\<rparr>"

text \<open>The services of a list of outstanding items that a pass at \<open>now\<close> sends out: those
  whose dispatch window has elapsed.\<close>

definition due :: "real \<Rightarrow> dispatch_hash \<Rightarrow> sha256 \<Rightarrow> (string \<times> service option) list \<Rightarrow> string \<Rightarrow> service option" where
  "due now tbl fh items svc =
     (case map_of items svc of
        Some (Some v) \<Rightarrow> if now - dispatch_time tbl fh svc < of_int (timeout v) then None else Some v
      | _ \<Rightarrow> None)"

lemma push_service_Some:
  "push_service now sub task (svc, Some v) w =
     (if now - dispatch_time (dispatch_tables w (ft_sid task)) (fi_sha256 (file_info task)) svc
           < of_int (timeout v)
      then Inr w
      else Inr (w\<lparr>service_queues := (service_queues w)
                     (svc := service_queues w svc @ [make_service_task sub task svc v]),
                  dispatch_tables := (dispatch_tables w)
                     (ft_sid task := dispatch (dispatch_tables w (ft_sid task)) now
                                       (fi_sha256 (file_info task)) svc)\<rparr>))"
  by (simp add: push_service_def Let_def make_service_task_def)

lemma push_service_None: "push_service now sub task (svc, None) w = Inl AttributeError"
  by (simp add: push_service_def)

lemma dispatch_time_dispatch:
  "dispatch_time (dispatch tbl now fh svc) fh' svc' =
     (if fh' = fh \<and> svc' = svc then now else dispatch_time tbl fh' svc')"
  by (simp add: dispatch_time_def dispatch_def)

lemma due_cong:
  "dispatch_time tbl1 fh svc = dispatch_time tbl fh svc \<Longrightarrow>
   due now tbl1 fh items svc = due now tbl fh items svc"
  by (simp add: due_def split: option.splits)

lemma due_Cons_other:
  "svc \<noteq> n \<Longrightarrow> due now tbl fh ((n, vo) # items) svc = due now tbl fh items svc"
  by (simp add: due_def)

lemma due_Cons_same:
  "map_of items n = None \<Longrightarrow> due now tbl fh items n = None"
  by (simp add: due_def)

lemma push_service_step:
  assumes "push_service now sub task (n, vo) w = Inr w1"
  shows "\<exists>v. vo = Some v \<and>
     service_queues w1 =
       (if now - dispatch_time (dispatch_tables w (ft_sid task)) (fi_sha256 (file_info task)) n
             < of_int (timeout v)
        then service_queues w
        else (service_queues w)(n := service_queues w n @ [make_service_task sub task n v])) \<and>
     dispatch_tables w1 =
       (if now - dispatch_time (dispatch_tables w (ft_sid task)) (fi_sha256 (file_info task)) n
             < of_int (timeout v)
        then dispatch_tables w
        else (dispatch_tables w)(ft_sid task :=
               dispatch (dispatch_tables w (ft_sid task)) now (fi_sha256 (file_info task)) n))"
proof (cases vo)
  case None
  with assms show ?thesis by (simp add: push_service_None)
next
  case (Some v)
  show ?thesis
  proof (cases "now - dispatch_time (dispatch_tables w (ft_sid task)) (fi_sha256 (file_info task)) n
             < of_int (timeout v)")
    case True
    with assms Some have "w1 = w" by (simp add: push_service_Some)
    with True Some show ?thesis by simp
  next
    case False
    with assms Some have "w1 = w\<lparr>service_queues := (service_queues w)
                     (n := service_queues w n @ [make_service_task sub task n v]),
                  dispatch_tables := (dispatch_tables w)
                     (ft_sid task := dispatch (dispatch_tables w (ft_sid task)) now
                                       (fi_sha256 (file_info task)) n)\<rparr>"
      by (simp add: push_service_Some)
    with False Some show ?thesis by simp
  qed
qed

lemma for_each_push:
  assumes "for_each (push_service now sub task) items w = Inr w'"
    and "distinct (map fst items)"
  shows "service_queues w' svc = service_queues w svc @
           (case due now (dispatch_tables w (ft_sid task)) (fi_sha256 (file_info task)) items svc of
              None \<Rightarrow> [] | Some v \<Rightarrow> [make_service_task sub task svc v]) \<and>
         dispatched (dispatch_tables w' (ft_sid task)) (fi_sha256 (file_info task), svc) =
           (case due now (dispatch_tables w (ft_sid task)) (fi_sha256 (file_info task)) items svc of
              None \<Rightarrow> dispatched (dispatch_tables w (ft_sid task)) (fi_sha256 (file_info task), svc)
            | Some v \<Rightarrow> Some now)"
  using assms
proof (induction items arbitrary: w)
  case Nil
  then show ?case by (simp add: due_def)
next
  case (Cons item items)
  let ?sid = "ft_sid task" and ?fh = "fi_sha256 (file_info task)"
  obtain n vo where item: "item = (n, vo)" by (cases item)
  from Cons.prems(1) item obtain w1 where
    p: "push_service now sub task (n, vo) w = Inr w1"
    and r: "for_each (push_service now sub task) items w1 = Inr w'"
    by (cases "push_service now sub task (n, vo) w") simp_all
  from Cons.prems(2) item have d: "distinct (map fst items)" and nn: "n \<notin> fst ` set items"
    by simp_all
  have none: "map_of items n = None" using nn by (simp add: map_of_eq_None_iff)
  from push_service_step[OF p] obtain v where vo: "vo = Some v"
    and q: "service_queues w1 =
       (if now - dispatch_time (dispatch_tables w ?sid) ?fh n < of_int (timeout v)
        then service_queues w
        else (service_queues w)(n := service_queues w n @ [make_service_task sub task n v]))"
    and t: "dispatch_tables w1 =
       (if now - dispatch_time (dispatch_tables w ?sid) ?fh n < of_int (timeout v)
        then dispatch_tables w
        else (dispatch_tables w)(?sid := dispatch (dispatch_tables w ?sid) now ?fh n))"
    by blast
  note ih = Cons.IH[OF r d]
  show ?case
  proof (cases "svc = n")
    case True
    have dn: "due now (dispatch_tables w1 ?sid) ?fh items n = None"
      using none by (rule due_Cons_same)
    have dh: "due now (dispatch_tables w ?sid) ?fh (item # items) n =
        (if now - dispatch_time (dispatch_tables w ?sid) ?fh n < of_int (timeout v)
         then None else Some v)"
      by (simp add: due_def item vo)
    from ih dn True have a: "service_queues w' n = service_queues w1 n"
      and b: "dispatched (dispatch_tables w' ?sid) (?fh, n) = dispatched (dispatch_tables w1 ?sid) (?fh, n)"
      by simp_all
    show ?thesis
      unfolding True a b dh q t by (simp add: dispatch_def)
  next
    case False
    have dt: "dispatch_time (dispatch_tables w1 ?sid) ?fh svc = dispatch_time (dispatch_tables w ?sid) ?fh svc"
      unfolding t using False by (simp add: dispatch_time_dispatch)
    have dd: "dispatched (dispatch_tables w1 ?sid) (?fh, svc) = dispatched (dispatch_tables w ?sid) (?fh, svc)"
      unfolding t using False by (simp add: dispatch_def)
    have qq: "service_queues w1 svc = service_queues w svc"
      unfolding q using False by simp
    have du: "due now (dispatch_tables w ?sid) ?fh (item # items) svc
        = due now (dispatch_tables w1 ?sid) ?fh items svc"
      using False by (simp add: item due_Cons_other due_cong[OF dt])
    show ?thesis
      unfolding du using ih
      by (cases "due now (dispatch_tables w1 ?sid) ?fh items svc") (simp_all add: qq dd)
  qed
qed

lemma dispatch_file_untracked:
  "active_tasks w (ft_sid task) = None \<Longrightarrow> dispatch_file E now w task = Inr w"
  by (simp add: dispatch_file_def)

lemma file_done_same:
  "service_queues (file_done now sub task sc errs w) = service_queues w"
  "dispatch_tables (file_done now sub task sc errs w) = dispatch_tables w"
  "active_tasks (file_done now sub task sc errs w) = active_tasks w"
  by (simp_all add: file_done_def Let_def)

lemma due_Nil: "due now tbl fh [] svc = None"
  by (simp add: due_def)

lemma due_SomeD:
  assumes "due now tbl fh items svc = Some v"
  shows "(svc, Some v) \<in> set items" and "\<not> now - dispatch_time tbl fh svc < of_int (timeout v)"
proof -
  from assms have m: "map_of items svc = Some (Some v)"
    by (auto simp: due_def split: option.splits if_splits)
  then show "(svc, Some v) \<in> set items" by (rule map_of_SomeD)
  from assms m show "\<not> now - dispatch_time tbl fh svc < of_int (timeout v)"
    by (auto simp: due_def split: if_splits)
qed

text \<open>One pass of \<^verbatim>\<open>dispatch_file\<close> over a tracked submission, in terms of the schedule
  \<open>sch\<close> and dispatch state \<open>tbl\<close> that \<^verbatim>\<open>build_schedule\<close> returns: the stage loop ends in
  locals that satisfy \<open>stage_inv\<close>, each service gets the message of its due entry and
  no other, and its dispatch timestamp is set exactly then.\<close>

lemma dispatch_file_effect:
  assumes act: "active_tasks w (ft_sid task) = Some atask"
    and run: "dispatch_file E now w task = Inr w'"
  obtains sch tbl started fs where
    "build_schedule (sched E) (dispatch_tables w (ft_sid task)) (submission atask)
       (fi_sha256 (file_info task)) (fi_type (file_info task)) = Inr (sch, tbl)"
    "stage_inv (sched E) sch tbl (fi_sha256 (file_info task)) started fs"
    "schedule_left fs = [] \<or> outstanding fs \<noteq> []"
    "\<And>svc. service_queues w' svc = service_queues w svc @
       (case due now tbl (fi_sha256 (file_info task)) (outstanding fs) svc of
          None \<Rightarrow> [] | Some v \<Rightarrow> [make_service_task (submission atask) task svc v])"
    "\<And>svc. dispatched (dispatch_tables w' (ft_sid task)) (fi_sha256 (file_info task), svc) =
       (case due now tbl (fi_sha256 (file_info task)) (outstanding fs) svc of
          None \<Rightarrow> dispatched tbl (fi_sha256 (file_info task), svc) | Some v \<Rightarrow> Some now)"
proof -
  let ?sid = "ft_sid task" and ?fh = "fi_sha256 (file_info task)"
  let ?sub = "submission atask"
  from act run obtain sch tbl where
    bs: "build_schedule (sched E) (dispatch_tables w ?sid) ?sub ?fh (fi_type (file_info task))
           = Inr (sch, tbl)"
    by (cases "build_schedule (sched E) (dispatch_tables w ?sid) ?sub ?fh (fi_type (file_info task))")
       (auto simp: dispatch_file_def Let_def)
  let ?fs0 = "\<lparr>schedule_left = sch, outstanding = [], fscore = 0, ferrors = 0, ftable = tbl\<rparr>"
  obtain started fs where rs: "run_stages (sched E) ?sub ?fh [] ?fs0 = (started, fs)"
    by (cases "run_stages (sched E) ?sub ?fh [] ?fs0")
  from run_stages_inv[OF stage_inv_start rs]
  have inv: "stage_inv (sched E) sch tbl ?fh started fs"
    and ex: "schedule_left fs = [] \<or> outstanding fs \<noteq> []" by simp_all
  from inv have ft: "ftable fs = tbl" and dist: "distinct (map fst (outstanding fs))"
    by (simp_all add: stage_inv_def)
  let ?w1 = "w\<lparr>dispatch_tables := (dispatch_tables w)(?sid := tbl)\<rparr>"
  have df: "dispatch_file E now w task =
      (if outstanding fs \<noteq> [] then for_each (push_service now ?sub task) (outstanding fs) ?w1
       else Inr (file_done now ?sub task (fscore fs) (ferrors fs) ?w1))"
    by (simp add: dispatch_file_def Let_def act bs rs ft)
  have q: "service_queues w' svc = service_queues w svc @
       (case due now tbl ?fh (outstanding fs) svc of
          None \<Rightarrow> [] | Some v \<Rightarrow> [make_service_task ?sub task svc v]) \<and>
     dispatched (dispatch_tables w' ?sid) (?fh, svc) =
       (case due now tbl ?fh (outstanding fs) svc of
          None \<Rightarrow> dispatched tbl (?fh, svc) | Some v \<Rightarrow> Some now)" for svc
  proof (cases "outstanding fs = []")
    case True
    with df run have "w' = file_done now ?sub task (fscore fs) (ferrors fs) ?w1" by simp
    with True show ?thesis by (simp add: file_done_same due_Nil)
  next
    case False
    with df run have "for_each (push_service now ?sub task) (outstanding fs) ?w1 = Inr w'"
      by simp
    from for_each_push[OF this dist, of svc] show ?thesis
      by (cases "due now tbl ?fh (outstanding fs) svc") simp_all
  qed
  show ?thesis
    by (rule that[OF bs inv ex]) (simp_all add: q)
qed

lemma distinct_concat_nth:
  "distinct (concat xs) \<Longrightarrow> i < length xs \<Longrightarrow> j < length xs \<Longrightarrow>
   x \<in> set (xs ! i) \<Longrightarrow> x \<in> set (xs ! j) \<Longrightarrow> i = j"
proof (induction xs arbitrary: i j)
  case Nil
  then show ?case by simp
next
  case (Cons a xs)
  from Cons.prems(1) have da: "set a \<inter> \<Union> (set ` set xs) = {}" and dx: "distinct (concat xs)"
    by auto
  show ?case
  proof (cases i)
    case 0
    show ?thesis
    proof (cases j)
      case 0
      with \<open>i = 0\<close> show ?thesis by simp
    next
      case (Suc j')
      with Cons.prems 0 have "x \<in> set a" "x \<in> set (xs ! j')" "j' < length xs" by simp_all
      with da show ?thesis by (auto dest: nth_mem)
    qed
  next
    case (Suc i')
    show ?thesis
    proof (cases j)
      case 0
      with Cons.prems Suc have "x \<in> set a" "x \<in> set (xs ! i')" "i' < length xs" by simp_all
      with da show ?thesis by (auto dest: nth_mem)
    next
      case (Suc j')
      with Cons.prems \<open>i = Suc i'\<close> have "i' = j'"
        by (intro Cons.IH[OF dx]) simp_all
      with Suc \<open>i = Suc i'\<close> show ?thesis by simp
    qed
  qed
qed

text \<open>
  C4. Stage ordering in \<^verbatim>\<open>dispatch_file\<close>. Let \<open>sch\<close> be the file's schedule as
  \<^verbatim>\<open>build_schedule\<close> returns it, each service in one stage only (as the scheduler
  builds it). If the call sends a message to the queue of a service of stage \<open>N\<close>, or
  changes its dispatch timestamp, then every service of every stage before \<open>N\<close> has a
  finish record. Read the other way: a stage with a service that has no finish record
  keeps the services of every later stage from being dispatched in that call.
\<close>

theorem dispatch_file_stage_order:
  assumes act: "active_tasks w (ft_sid task) = Some atask"
    and bs: "build_schedule (sched E) (dispatch_tables w (ft_sid task)) (submission atask)
               (fi_sha256 (file_info task)) (fi_type (file_info task)) = Inr (sch, tbl)"
    and dis: "distinct (concat sch)"
    and run: "dispatch_file E now w task = Inr w'"
    and N: "N < length sch" and svc: "svc \<in> set (sch ! N)"
    and pushed: "service_queues w' svc \<noteq> service_queues w svc \<or>
       dispatched (dispatch_tables w' (ft_sid task)) (fi_sha256 (file_info task), svc) \<noteq>
       dispatched (dispatch_tables w (ft_sid task)) (fi_sha256 (file_info task), svc)"
  shows "\<forall>k<N. \<forall>t \<in> set (sch ! k).
           finished (dispatch_tables w (ft_sid task)) (fi_sha256 (file_info task)) t \<noteq> None"
proof -
  let ?sid = "ft_sid task" and ?fh = "fi_sha256 (file_info task)"
  obtain sch' tbl' started fs where
    bs': "build_schedule (sched E) (dispatch_tables w ?sid) (submission atask) ?fh
            (fi_type (file_info task)) = Inr (sch', tbl')"
    and inv: "stage_inv (sched E) sch' tbl' ?fh started fs"
    and q: "\<And>svc. service_queues w' svc = service_queues w svc @
       (case due now tbl' ?fh (outstanding fs) svc of
          None \<Rightarrow> [] | Some v \<Rightarrow> [make_service_task (submission atask) task svc v])"
    and d: "\<And>svc. dispatched (dispatch_tables w' ?sid) (?fh, svc) =
       (case due now tbl' ?fh (outstanding fs) svc of
          None \<Rightarrow> dispatched tbl' (?fh, svc) | Some v \<Rightarrow> Some now)"
    by (rule dispatch_file_effect[OF act run], rule that)
  from bs bs' have same: "sch' = sch" "tbl' = tbl" by simp_all
  have dt: "dispatched tbl = dispatched (dispatch_tables w ?sid)"
    using bs by (rule build_schedule_table)
  have fin: "finished tbl = finished (dispatch_tables w ?sid)"
    using bs by (rule build_schedule_finished)
  have "due now tbl ?fh (outstanding fs) svc \<noteq> None"
  proof
    assume n: "due now tbl ?fh (outstanding fs) svc = None"
    from q[of svc] d[of svc] have "service_queues w' svc = service_queues w svc"
      and "dispatched (dispatch_tables w' ?sid) (?fh, svc) = dispatched tbl (?fh, svc)"
      unfolding same n by simp_all
    with pushed dt show False by simp
  qed
  then obtain v where due: "due now tbl ?fh (outstanding fs) svc = Some v" by blast
  from due_SomeD(1)[OF due] have out: "svc \<in> fst ` set (outstanding fs)"
    by (rule rev_image_eqI) simp
  from inv have pre: "started = take (length started) sch"
    and early: "\<forall>stg \<in> set (butlast started). \<forall>t \<in> set stg. finished tbl ?fh t \<noteq> None"
    and keys: "fst ` set (outstanding fs) =
       (if started = [] then {} else {t \<in> set (last started). finished tbl ?fh t = None})"
    unfolding same by (simp_all add: stage_inv_def)
  from out keys have ne: "started \<noteq> []" and last: "svc \<in> set (last started)"
    by (auto split: if_splits)
  define n where "n = length started"
  have st: "started = take n sch" unfolding n_def by (rule pre)
  have "length started = min (length sch) n"
    by (subst st) simp
  then have len: "n \<le> length sch" unfolding n_def by simp
  from ne have pos: "0 < n" unfolding n_def by simp
  have lastn: "last started = sch ! (n - 1)"
  proof -
    have "last started = started ! (n - 1)"
      unfolding n_def using ne by (rule last_conv_nth)
    also have "\<dots> = take n sch ! (n - 1)" by (subst st) (rule refl)
    also have "\<dots> = sch ! (n - 1)" using pos by simp
    finally show ?thesis .
  qed
  have Neq: "N = n - 1"
    using dis N _ svc
  proof (rule distinct_concat_nth)
    show "n - 1 < length sch" using pos len by simp
    show "svc \<in> set (sch ! (n - 1))" using last lastn by simp
  qed
  have "butlast started = butlast (take n sch)" by (subst st) (rule refl)
  also have "\<dots> = take (n - 1) sch" using len by (simp add: butlast_take)
  finally have bl: "butlast started = take N sch" using Neq by simp
  show ?thesis
  proof (intro allI impI ballI)
    fix k t assume k: "k < N" and t: "t \<in> set (sch ! k)"
    have "take N sch ! k \<in> set (take N sch)"
      using k N by (intro nth_mem) simp
    then have "sch ! k \<in> set (take N sch)"
      using k by simp
    with early bl t have "finished tbl ?fh t \<noteq> None" by simp
    with fin show "finished (dispatch_tables w ?sid) ?fh t \<noteq> None" by simp
  qed
qed

lemma staged_build_schedule:
  "build_schedule scenario_scheduler (staged_table d) scenario_submission ''A'' ''text''
     = Inr ([[''sv1''], [''sv2'']], staged_table d)"
  by (simp add: build_schedule_def staged_table_def)

lemma staged_run_stages:
  "run_stages scenario_scheduler scenario_submission ''A'' []
     \<lparr>schedule_left = [[''sv1''], [''sv2'']], outstanding = [], fscore = 0, ferrors = 0,
      ftable = staged_table False\<rparr>
   = ([[''sv1''], [''sv2'']],
      \<lparr>schedule_left = [], outstanding = [(''sv2'', Some (scenario_service ''sv2'' ''s2'' 30))],
       fscore = 10, ferrors = 0, ftable = staged_table False\<rparr>)"
  by (simp add: run_stages.simps check_finished_def finished_def staged_table_def
      empty_table_def finish_row_def is_error_def scenario_scheduler_def
      scenario_submission_def scenario_params_def Let_def)

lemma staged_world_simps:
  "active_tasks (staged_world d) ''S1'' = Some scenario_task"
  "dispatch_tables (staged_world d) ''S1'' = staged_table d"
  "service_queues (staged_world d) = (\<lambda>_. [])"
  "ft_sid (scenario_file_task sha n) = ''S1''"
  "fi_sha256 (file_info (scenario_file_task sha n)) = sha"
  "fi_type (file_info (scenario_file_task sha n)) = ''text''"
  "sched scenario_env = scenario_scheduler"
  "submission scenario_task = scenario_submission"
  by (simp_all add: staged_world_def empty_world_def scenario_file_task_def scenario_file_def
      scenario_env_def scenario_task_def)

lemma staged_dispatch_time:
  "dispatch_time (staged_table d) sha svc = 0"
  by (simp add: dispatch_time_def staged_table_def empty_table_def)

lemma staged_dispatch_file:
  "dispatch_file scenario_env 100 (staged_world False) (scenario_file_task ''A'' 0)
   = Inr ((staged_world False)
       \<lparr>dispatch_tables := (dispatch_tables (staged_world False))(''S1'' := staged_table False),
        service_queues := (\<lambda>_. [])
          (''sv2'' := [make_service_task scenario_submission (scenario_file_task ''A'' 0) ''sv2''
                        (scenario_service ''sv2'' ''s2'' 30)]),
        dispatch_tables := (dispatch_tables (staged_world False))
          (''S1'' := dispatch (staged_table False) 100 ''A'' ''sv2'')\<rparr>)"
  by (simp add: dispatch_file_def staged_world_simps staged_build_schedule staged_run_stages
      push_service_Some staged_dispatch_time scenario_service_def Let_def)

theorem dispatch_file_stage_order_witness:
  "finished (dispatch_tables (staged_world False) ''S1'') ''A'' ''sv1'' \<noteq> None \<and>
   (\<exists>w'. dispatch_file scenario_env 100 (staged_world False) (scenario_file_task ''A'' 0) = Inr w' \<and>
         service_queues w' ''sv2'' \<noteq> service_queues (staged_world False) ''sv2'')"
proof -
  let ?w = "staged_world False" and ?task = "scenario_file_task ''A'' 0"
  let ?sch = "[[''sv1''], [''sv2'']]"
  obtain w' where run: "dispatch_file scenario_env 100 ?w ?task = Inr w'"
    and q: "service_queues w' ''sv2'' \<noteq> service_queues ?w ''sv2''"
    by (simp add: staged_dispatch_file staged_world_simps)
  have act: "active_tasks ?w (ft_sid ?task) = Some scenario_task"
    by (simp add: staged_world_simps)
  have bs: "build_schedule (sched scenario_env) (dispatch_tables ?w (ft_sid ?task))
      (submission scenario_task) (fi_sha256 (file_info ?task)) (fi_type (file_info ?task))
      = Inr (?sch, staged_table False)"
    by (simp add: staged_world_simps staged_build_schedule)
  have dis: "distinct (concat ?sch)" by simp
  have N: "1 < length ?sch" and svc: "''sv2'' \<in> set (?sch ! 1)" by simp_all
  from dispatch_file_stage_order[OF act bs dis run N svc disjI1[OF q]]
  have "\<forall>t \<in> set (?sch ! 0).
          finished (dispatch_tables ?w (ft_sid ?task)) (fi_sha256 (file_info ?task)) t \<noteq> None"
    by blast
  then have "finished (dispatch_tables ?w ''S1'') ''A'' ''sv1'' \<noteq> None"
    by (simp add: staged_world_simps)
  with run q show ?thesis by blast
qed

lemma dropped_run_stages:
  "run_stages scenario_scheduler scenario_submission ''A'' []
     \<lparr>schedule_left = [[''sv1''], [''sv2'']], outstanding = [], fscore = 0, ferrors = 0,
      ftable = staged_table True\<rparr>
   = ([[''sv1'']],
      \<lparr>schedule_left = [], outstanding = [], fscore = 10, ferrors = 0,
       ftable = staged_table True\<rparr>)"
  by (simp add: run_stages.simps check_finished_def finished_def staged_table_def
      empty_table_def finish_row_def is_error_def scenario_scheduler_def
      scenario_submission_def scenario_params_def Let_def)

text \<open>
  C2. The file A has the cached schedule sv1, then sv2; sv1 has finished with
  drop set and the submission does not ignore filtering. \<^verbatim>\<open>dispatch_file\<close> truncates the
  rest of the schedule (nothing is sent to sv2, the file is done), but the cached schedule
  is still both stages and not the started stage alone: \<^verbatim>\<open>if schedule\<close> is tested after
  \<^verbatim>\<open>schedule.clear()\<close>, so \<^verbatim>\<open>schedules.set\<close> is never reached.
\<close>

theorem drop_leaves_cached_schedule:
  "\<exists>w'. dispatch_file scenario_env 100 (staged_world True) (scenario_file_task ''A'' 0) = Inr w' \<and>
     schedules (dispatch_tables w' ''S1'') ''A'' = Some [[''sv1''], [''sv2'']] \<and>
     schedules (dispatch_tables w' ''S1'') ''A'' \<noteq> Some [[''sv1'']] \<and>
     service_queues w' ''sv2'' = [] \<and>
     map_of (filescores w') ''A'' \<noteq> None"
  by (simp add: dispatch_file_def staged_world_simps staged_build_schedule dropped_run_stages
      file_done_same Let_def)
    (simp add: file_done_def Let_def staged_table_def empty_table_def staged_world_def
      empty_world_def scenario_file_task_def scenario_file_def)

end
